theory Spec2Isabelle
  imports Main
begin

section \<open>The pcap DNS-response rewriter (bro.py)\<close>

subsection \<open>Address derivation: \<open>convert_sciper_to_ip\<close>\<close>

text \<open>
  Python's \<open>range(0, len(s), n)\<close>: the multiples of \<open>n\<close> below the length.
\<close>

definition range_step :: "nat \<Rightarrow> nat \<Rightarrow> nat list" where
  "range_step stop n = filter (\<lambda>i. i mod n = 0) [0..<stop]"

text \<open>Python's slice \<open>s[i:j]\<close> for indices \<open>0 \<le> i \<le> j\<close>; it never raises.\<close>

definition slice :: "'a list \<Rightarrow> nat \<Rightarrow> nat \<Rightarrow> 'a list" where
  "slice s i j = take (j - i) (drop i s)"

text \<open>Python's \<open>sep.join(xs)\<close>.\<close>

fun join :: "string \<Rightarrow> string list \<Rightarrow> string" where
  "join sep [] = []"
| "join sep [x] = x"
| "join sep (x # y # ys) = x @ sep @ join sep (y # ys)"

definition split_sciper :: "string \<Rightarrow> string list" where
  "split_sciper sciper =
     (let n = 2 in map (\<lambda>i. slice sciper i (i + n)) (range_step (length sciper) n))"

definition convert_sciper_to_ip :: "string \<Rightarrow> string" where
  "convert_sciper_to_ip sciper = ''00.'' @ join ''.'' (split_sciper sciper)"

definition SCIPER :: string where
  "SCIPER = ''377690''"

text \<open>
  The derivation as the specification words it: cut the identifier into consecutive
  chunks of two characters (the last chunk has one character when the length is odd),
  join the chunks with a dot and put \<open>00.\<close> in front.
\<close>

fun chunks2 :: "string \<Rightarrow> string list" where
  "chunks2 [] = []"
| "chunks2 [a] = [[a]]"
| "chunks2 (a # b # rest) = [a, b] # chunks2 rest"

definition derive_address :: "string \<Rightarrow> string" where
  "derive_address identifier = ''00.'' @ join ''.'' (chunks2 identifier)"

subsection \<open>Packets\<close>

text \<open>
  A resource record, with the fields the rewriter reads (\<open>type\<close>) and writes (\<open>rdata\<close>)
  and the ones it leaves alone.
\<close>

record rr =
  rrname :: string
  rrtype :: nat
  rclass :: nat
  ttl :: nat
  rdata :: string

text \<open>
  The DNS layer: the query/response bit, the three declared counts and the three parsed
  record sequences. A count and the length of its sequence are separate fields, as in
  the library's packet object.
\<close>

record dns_layer =
  dns_id :: nat
  qr :: nat
  rcode :: nat
  ancount :: nat
  nscount :: nat
  arcount :: nat
  an :: "rr list"
  ns :: "rr list"
  ar :: "rr list"

text \<open>
  The IP and UDP headers. A length or checksum that has been deleted (\<open>del\<close>) is
  \<open>None\<close>: the library computes it again when the packet is written.
\<close>

record ip_layer =
  ip_src :: string
  ip_dst :: string
  ip_ttl :: nat
  ip_len :: "nat option"
  ip_chksum :: "nat option"

record udp_layer =
  sport :: nat
  dport :: nat
  udp_len :: "nat option"
  udp_chksum :: "nat option"

text \<open>
  A packet: its capture timestamp (microseconds), the link-layer addresses and the
  layers that may be absent.
\<close>

record packet =
  time :: int
  eth_src :: string
  eth_dst :: string
  ip :: "ip_layer option"
  udp :: "udp_layer option"
  dns :: "dns_layer option"

datatype error = FileAccessError | ParseError | IndexError

subsection \<open>The record rewriter: \<open>fix_section\<close>\<close>

text \<open>
  A \<open>for\<close> loop over a list of indices whose body may raise: the first error ends the
  loop.
\<close>

fun for_each :: "(nat \<Rightarrow> 's \<Rightarrow> error + 's) \<Rightarrow> nat list \<Rightarrow> 's \<Rightarrow> error + 's" where
  "for_each body [] st = Inr st"
| "for_each body (i # is) st =
     (case body i st of Inl e \<Rightarrow> Inl e | Inr st' \<Rightarrow> for_each body is st')"

text \<open>
  The body of the loop of \<open>fix_section\<close>, on the section and the flag \<open>modified\<close> of the
  enclosing scope. \<open>section[i]\<close> raises when \<open>i\<close> is not below the length.
\<close>

definition fix_section_body :: "string \<Rightarrow> nat \<Rightarrow> rr list \<times> bool \<Rightarrow> error + rr list \<times> bool" where
  "fix_section_body new_ip i st =
     (case st of (section, modified) \<Rightarrow>
        if i < length section then
          (let r = section ! i in
           if rrtype r = 1 then Inr (section[i := r\<lparr>rdata := new_ip\<rparr>], True)
           else Inr (section, modified))
        else Inl IndexError)"

definition fix_section :: "string \<Rightarrow> rr list \<Rightarrow> nat \<Rightarrow> bool \<Rightarrow> error + rr list \<times> bool" where
  "fix_section new_ip section count modified =
     for_each (fix_section_body new_ip) [0..<count] (section, modified)"

text \<open>
  The three calls of \<open>fix_section\<close> on the answer, authority and additional sections,
  starting from \<open>modified = False\<close>; the result is the DNS layer as mutated and the flag.
\<close>

definition fix_sections :: "string \<Rightarrow> dns_layer \<Rightarrow> error + dns_layer \<times> bool" where
  "fix_sections new_ip d =
     (case fix_section new_ip (an d) (ancount d) False of
        Inl e \<Rightarrow> Inl e
      | Inr (an', m1) \<Rightarrow>
     (case fix_section new_ip (ns d) (nscount d) m1 of
        Inl e \<Rightarrow> Inl e
      | Inr (ns', m2) \<Rightarrow>
     (case fix_section new_ip (ar d) (arcount d) m2 of
        Inl e \<Rightarrow> Inl e
      | Inr (ar', m3) \<Rightarrow> Inr (d\<lparr>an := an', ns := ns', ar := ar'\<rparr>, m3))))"

subsection \<open>The packet loop of \<open>modify_pcap\<close>\<close>

definition del_ip :: "ip_layer \<Rightarrow> ip_layer" where
  "del_ip h = h\<lparr>ip_len := None, ip_chksum := None\<rparr>"

definition del_udp :: "udp_layer \<Rightarrow> udp_layer" where
  "del_udp h = h\<lparr>udp_len := None, udp_chksum := None\<rparr>"

text \<open>The test of line 18: the packet has a DNS layer whose \<open>qr\<close> is 1.\<close>

definition is_dns_response :: "packet \<Rightarrow> bool" where
  "is_dns_response p = (case dns p of None \<Rightarrow> False | Some d \<Rightarrow> qr d = 1)"

text \<open>
  One iteration of the loop over the packets: the packet appended to \<open>new_pkts\<close>, or the
  error that ends the run.
\<close>

definition process_packet :: "string \<Rightarrow> packet \<Rightarrow> error + packet" where
  "process_packet new_ip p =
     (case dns p of
        None \<Rightarrow> Inr p
      | Some d \<Rightarrow>
          if qr d \<noteq> 1 then Inr p
          else
            (let original_time = time p in
             case fix_sections new_ip d of
               Inl e \<Rightarrow> Inl e
             | Inr (d', modified) \<Rightarrow>
                 (let p1 = p\<lparr>dns := Some d'\<rparr> in
                  if \<not> modified then Inr p1
                  else
                    (let p2 = (case ip p1 of None \<Rightarrow> p1 | Some h \<Rightarrow> p1\<lparr>ip := Some (del_ip h)\<rparr>);
                         p3 = (case udp p2 of None \<Rightarrow> p2 | Some u \<Rightarrow> p2\<lparr>udp := Some (del_udp u)\<rparr>)
                     in Inr (p3\<lparr>time := original_time\<rparr>)))))"

text \<open>
  Whether the run reaches line 42 for a packet: it is a DNS response and the flag
  \<open>modified\<close> is set after the three sections.
\<close>

definition packet_modified :: "string \<Rightarrow> packet \<Rightarrow> bool" where
  "packet_modified new_ip p =
     (case dns p of
        None \<Rightarrow> False
      | Some d \<Rightarrow> qr d = 1 \<and>
          (case fix_sections new_ip d of Inl e \<Rightarrow> False | Inr (d', modified) \<Rightarrow> modified))"

fun packet_loop :: "string \<Rightarrow> packet list \<Rightarrow> packet list \<Rightarrow> error + packet list" where
  "packet_loop new_ip [] new_pkts = Inr new_pkts"
| "packet_loop new_ip (p # pkts) new_pkts =
     (case process_packet new_ip p of
        Inl e \<Rightarrow> Inl e
      | Inr p' \<Rightarrow> packet_loop new_ip pkts (new_pkts @ [p']))"

subsection \<open>Reading and writing capture files\<close>

text \<open>
  The file system as the run sees it: what each path holds, and which paths can be
  written. A path that holds nothing cannot be read.
\<close>

type_synonym path = string

datatype file_content = Capture "packet list" | NotACapture

record world =
  files :: "path \<Rightarrow> file_content option"
  writable :: "path \<Rightarrow> bool"

text \<open>
  Modelled from the spec: \<open>rdpcap\<close> is the packet library's reader and is not part of
  the repository. Loading gives the ordered sequence of packets, and fails with a
  file-access error when the path is unreadable and with a parse error when the file is
  not a capture.
\<close>

definition rdpcap :: "world \<Rightarrow> path \<Rightarrow> error + packet list" where
  "rdpcap w filename =
     (case files w filename of
        None \<Rightarrow> Inl FileAccessError
      | Some NotACapture \<Rightarrow> Inl ParseError
      | Some (Capture pkts) \<Rightarrow> Inr pkts)"

text \<open>
  Modelled from the spec: the packet library's serialisation is not part of the
  repository. It computes a length or checksum again where the field has been removed
  and keeps a value that is present. What it computes is left open: four functions of
  the packet being written.
\<close>

record codec =
  calc_ip_len :: "packet \<Rightarrow> nat"
  calc_ip_chksum :: "packet \<Rightarrow> nat"
  calc_udp_len :: "packet \<Rightarrow> nat"
  calc_udp_chksum :: "packet \<Rightarrow> nat"

definition field_or :: "nat option \<Rightarrow> nat \<Rightarrow> nat option" where
  "field_or v computed = (case v of None \<Rightarrow> Some computed | Some x \<Rightarrow> Some x)"

definition build :: "codec \<Rightarrow> packet \<Rightarrow> packet" where
  "build c p =
     p\<lparr>ip := map_option
            (\<lambda>h. h\<lparr>ip_len := field_or (ip_len h) (calc_ip_len c p),
                    ip_chksum := field_or (ip_chksum h) (calc_ip_chksum c p)\<rparr>) (ip p),
       udp := map_option
            (\<lambda>u. u\<lparr>udp_len := field_or (udp_len u) (calc_udp_len c p),
                    udp_chksum := field_or (udp_chksum u) (calc_udp_chksum c p)\<rparr>) (udp p)\<rparr>"

text \<open>
  Modelled from the spec: \<open>wrpcap\<close> is the packet library's writer and is not part of
  the repository. Saving writes the sequence in the given order as one file, and fails
  with a file-access error, writing nothing, when the path is not writable.
\<close>

definition wrpcap :: "codec \<Rightarrow> world \<Rightarrow> path \<Rightarrow> packet list \<Rightarrow> world \<times> error option" where
  "wrpcap c w filename pkts =
     (if writable w filename
      then (w\<lparr>files := (files w)(filename \<mapsto> Capture (map (build c) pkts))\<rparr>, None)
      else (w, Some FileAccessError))"

text \<open>
  \<open>modify_pcap\<close>: the world after the run and the error that ended it, if any. An
  exception leaves the function before \<open>wrpcap\<close> is called.
\<close>

definition modify_pcap :: "codec \<Rightarrow> world \<Rightarrow> path \<Rightarrow> path \<Rightarrow> world \<times> error option" where
  "modify_pcap c w input_pcap_file output_pcap_file =
     (case rdpcap w input_pcap_file of
        Inl e \<Rightarrow> (w, Some e)
      | Inr pkts \<Rightarrow>
          (let new_ip = convert_sciper_to_ip SCIPER in
           case packet_loop new_ip pkts [] of
             Inl e \<Rightarrow> (w, Some e)
           | Inr new_pkts \<Rightarrow> wrpcap c w output_pcap_file new_pkts))"

subsection \<open>Notions used to state the properties\<close>

text \<open>A record rewritten: the address of an A record (type 1) becomes the target.\<close>

definition fix_rr :: "string \<Rightarrow> rr \<Rightarrow> rr" where
  "fix_rr new_ip r = (if rrtype r = 1 then r\<lparr>rdata := new_ip\<rparr> else r)"

text \<open>A section whose first \<open>count\<close> records are rewritten and whose other records are kept.\<close>

definition rewritten :: "string \<Rightarrow> nat \<Rightarrow> rr list \<Rightarrow> rr list" where
  "rewritten new_ip count section =
     map (fix_rr new_ip) (take count section) @ drop count section"

definition rewrite_dns :: "string \<Rightarrow> dns_layer \<Rightarrow> dns_layer" where
  "rewrite_dns new_ip d =
     d\<lparr>an := rewritten new_ip (ancount d) (an d),
       ns := rewritten new_ip (nscount d) (ns d),
       ar := rewritten new_ip (arcount d) (ar d)\<rparr>"

text \<open>The packet with its DNS records rewritten and its lengths and checksums removed.\<close>

definition modified_packet :: "string \<Rightarrow> packet \<Rightarrow> packet" where
  "modified_packet new_ip p =
     p\<lparr>ip := map_option del_ip (ip p),
       udp := map_option del_udp (udp p),
       dns := map_option (rewrite_dns new_ip) (dns p)\<rparr>"

definition has_A :: "rr list \<Rightarrow> bool" where
  "has_A section = list_ex (\<lambda>r. rrtype r = 1) section"

text \<open>An A record anywhere in the three parsed sequences.\<close>

definition contains_A :: "dns_layer \<Rightarrow> bool" where
  "contains_A d = (has_A (an d) \<or> has_A (ns d) \<or> has_A (ar d))"

definition packet_contains_A :: "packet \<Rightarrow> bool" where
  "packet_contains_A p = (case dns p of None \<Rightarrow> False | Some d \<Rightarrow> contains_A d)"

text \<open>An A record at an index below the declared count of its section.\<close>

definition declared_A :: "dns_layer \<Rightarrow> bool" where
  "declared_A d =
     (has_A (take (ancount d) (an d)) \<or> has_A (take (nscount d) (ns d))
      \<or> has_A (take (arcount d) (ar d)))"

definition packet_declared_A :: "packet \<Rightarrow> bool" where
  "packet_declared_A p = (case dns p of None \<Rightarrow> False | Some d \<Rightarrow> declared_A d)"

text \<open>No declared count exceeds the number of parsed records of its section.\<close>

definition counts_in_range :: "dns_layer \<Rightarrow> bool" where
  "counts_in_range d =
     (ancount d \<le> length (an d) \<and> nscount d \<le> length (ns d) \<and> arcount d \<le> length (ar d))"

definition packet_counts_in_range :: "packet \<Rightarrow> bool" where
  "packet_counts_in_range p = (case dns p of None \<Rightarrow> True | Some d \<Rightarrow> counts_in_range d)"

text \<open>
  A DNS layer as the reader of capture files delivers it: for each section it decodes
  at most the declared count of records, so no section holds more parsed records than
  its count. The rewriter receives its packets from the reader only.
\<close>

definition parsed_within_counts :: "dns_layer \<Rightarrow> bool" where
  "parsed_within_counts d =
     (length (an d) \<le> ancount d \<and> length (ns d) \<le> nscount d \<and> length (ar d) \<le> arcount d)"

definition packet_parsed_within_counts :: "packet \<Rightarrow> bool" where
  "packet_parsed_within_counts p =
     (case dns p of None \<Rightarrow> True | Some d \<Rightarrow> parsed_within_counts d)"

subsection \<open>Example packets\<close>

definition a_record :: "string \<Rightarrow> rr" where
  "a_record addr = \<lparr>rrname = ''example.com.'', rrtype = 1, rclass = 1, ttl = 300, rdata = addr\<rparr>"

definition ns_record :: "string \<Rightarrow> rr" where
  "ns_record host = \<lparr>rrname = ''example.com.'', rrtype = 2, rclass = 1, ttl = 300, rdata = host\<rparr>"

definition response :: "nat \<Rightarrow> rr list \<Rightarrow> nat \<Rightarrow> rr list \<Rightarrow> dns_layer" where
  "response n_an answers n_ns authority =
     \<lparr>dns_id = 7, qr = 1, rcode = 0, ancount = n_an, nscount = n_ns, arcount = 0,
      an = answers, ns = authority, ar = []\<rparr>"

definition udp_packet :: "dns_layer option \<Rightarrow> packet" where
  "udp_packet d =
     \<lparr>time = 1700000000000000, eth_src = ''02:00:00:00:00:01'', eth_dst = ''02:00:00:00:00:02'',
      ip = Some \<lparr>ip_src = ''10.0.0.1'', ip_dst = ''10.0.0.2'', ip_ttl = 64,
                 ip_len = Some 72, ip_chksum = Some 4660\<rparr>,
      udp = Some \<lparr>sport = 53, dport = 40000, udp_len = Some 52, udp_chksum = Some 22136\<rparr>,
      dns = d\<rparr>"

text \<open>A response with one A record and one NS record, counts equal to lengths.\<close>

definition example_response :: packet where
  "example_response =
     udp_packet (Some (response 1 [a_record ''93.184.216.34''] 1 [ns_record ''ns.example.com.'']))"

text \<open>A query: \<open>qr\<close> is 0.\<close>

definition example_query :: packet where
  "example_query =
     udp_packet (Some ((response 0 [] 0 [])\<lparr>qr := 0\<rparr>))"

text \<open>The example packets with lengths and checksums removed.\<close>

definition invalidated :: "dns_layer option \<Rightarrow> packet" where
  "invalidated d =
     (udp_packet d)\<lparr>ip := map_option del_ip (ip (udp_packet d)),
                    udp := map_option del_udp (udp (udp_packet d))\<rparr>"

text \<open>A response that declares two answers and carries one.\<close>

definition truncated_response :: packet where
  "truncated_response = udp_packet (Some (response 2 [a_record ''93.184.216.34''] 0 []))"

text \<open>A response cut after its answer: it declares one authority record and carries none.\<close>

definition truncated_authority :: packet where
  "truncated_authority = udp_packet (Some (response 1 [a_record ''93.184.216.34''] 1 []))"

text \<open>
  A codec that computes fixed values, and a world with one capture of two packets, a
  file that is not a capture, and one writable path.
\<close>

definition example_codec :: codec where
  "example_codec =
     \<lparr>calc_ip_len = (\<lambda>p. 72), calc_ip_chksum = (\<lambda>p. 4660),
      calc_udp_len = (\<lambda>p. 52), calc_udp_chksum = (\<lambda>p. 22136)\<rparr>"

definition example_capture :: "packet list" where
  "example_capture = [example_query, example_response]"

definition example_world :: world where
  "example_world =
     \<lparr>files = [''in.pcap'' \<mapsto> Capture example_capture, ''notes.txt'' \<mapsto> NotACapture],
      writable = (\<lambda>f. f = ''out.pcap'')\<rparr>"

definition example_output :: "packet list" where
  "example_output =
     [example_query,
      udp_packet (Some (response 1 [a_record ''00.37.76.90''] 1 [ns_record ''ns.example.com.'']))]"

section \<open>Properties\<close>

subsection \<open>The address derivation\<close>

lemma range_step_2_Suc_Suc:
  "range_step (Suc (Suc n)) 2 = 0 # map (\<lambda>i. i + 2) (range_step n 2)"
proof -
  have "[0..<Suc (Suc n)] = 0 # 1 # map (\<lambda>i. i + 2) [0..<n]"
    by (induction n) auto
  then show ?thesis
    by (simp add: range_step_def filter_map comp_def)
qed

lemma split_sciper_chunks2: "split_sciper s = chunks2 s"
proof (induction s rule: chunks2.induct)
  case 1
  show ?case by (simp add: split_sciper_def range_step_def)
next
  case (2 a)
  show ?case by (simp add: split_sciper_def range_step_def slice_def)
next
  case (3 a b rest)
  then show ?case
    by (simp add: split_sciper_def range_step_2_Suc_Suc slice_def comp_def)
qed

lemma concat_chunks2: "concat (chunks2 s) = s"
  by (induction s rule: chunks2.induct) auto

lemma chunks2_butlast: "c \<in> set (butlast (chunks2 s)) \<Longrightarrow> length c = 2"
  by (induction s rule: chunks2.induct) (auto split: if_splits)

lemma chunks2_Nil: "chunks2 s = [] \<longleftrightarrow> s = []"
  by (induction s rule: chunks2.induct) auto

lemma chunks2_last:
  "s \<noteq> [] \<Longrightarrow> length (last (chunks2 s)) = (if even (length s) then 2 else 1)"
proof (induction s rule: chunks2.induct)
  case (3 a b rest)
  then show ?case by (cases "rest = []") (simp_all add: chunks2_Nil)
qed simp_all

lemma new_ip_value: "convert_sciper_to_ip SCIPER = ''00.37.76.90''"
  by (simp add: convert_sciper_to_ip_def split_sciper_chunks2 SCIPER_def)

text \<open>
  C2. \<open>convert_sciper_to_ip\<close> is a function of its argument alone. For every non-empty
  string (of decimal digits or not) it cuts the string into consecutive chunks that
  concatenate to the string, every chunk but the last of two characters, the last of
  two characters when the length is even and of one when it is odd; it joins the chunks
  with a dot and puts \<open>00.\<close> in front, which is the derivation of the specification. On
  \<open>377690\<close> it returns \<open>00.37.76.90\<close>.
\<close>

theorem convert_sciper_to_ip_chunks:
  assumes "s \<noteq> []"
  shows "convert_sciper_to_ip s = ''00.'' @ join ''.'' (split_sciper s)
       \<and> concat (split_sciper s) = s
       \<and> (\<forall>c \<in> set (butlast (split_sciper s)). length c = 2)
       \<and> length (last (split_sciper s)) = (if even (length s) then 2 else 1)
       \<and> convert_sciper_to_ip s = derive_address s
       \<and> convert_sciper_to_ip ''377690'' = ''00.37.76.90''"
  using assms chunks2_last [of s] new_ip_value
  by (simp add: convert_sciper_to_ip_def derive_address_def split_sciper_chunks2
      concat_chunks2 chunks2_butlast SCIPER_def)

theorem convert_sciper_to_ip_chunks_witness:
  "''12345'' \<noteq> [] \<and> convert_sciper_to_ip ''12345'' = ''00.12.34.5''
   \<and> split_sciper ''12345'' = [''12'', ''34'', ''5'']
   \<and> length (last (split_sciper ''12345'')) = 1"
  using convert_sciper_to_ip_chunks [of "''12345''"]
  by (simp add: derive_address_def split_sciper_chunks2)

subsection \<open>The record rewriter\<close>

lemma for_each_append:
  "for_each body (xs @ ys) st =
     (case for_each body xs st of Inl e \<Rightarrow> Inl e | Inr st' \<Rightarrow> for_each body ys st')"
  by (induction xs arbitrary: st) (auto split: sum.splits)

lemma rewritten_Suc:
  "n < length section \<Longrightarrow>
   rewritten new_ip (Suc n) section = (rewritten new_ip n section)[n := fix_rr new_ip (section ! n)]"
  by (simp add: rewritten_def take_Suc_conv_app_nth list_update_append
      flip: Cons_nth_drop_Suc)

lemma rewritten_nth_next: "n < length section \<Longrightarrow> rewritten new_ip n section ! n = section ! n"
  by (simp add: rewritten_def nth_append)

lemma length_rewritten: "length (rewritten new_ip n section) = length section"
  by (simp add: rewritten_def)

lemma has_A_take_Suc:
  "n < length section \<Longrightarrow>
   has_A (take (Suc n) section) = (has_A (take n section) \<or> rrtype (section ! n) = 1)"
  by (auto simp: has_A_def list_ex_iff take_Suc_conv_app_nth)

lemma fix_section_eq:
  "fix_section new_ip section count modified =
     (if count \<le> length section
      then Inr (rewritten new_ip count section, modified \<or> has_A (take count section))
      else Inl IndexError)"
proof (induction count)
  case 0
  show ?case by (simp add: fix_section_def rewritten_def has_A_def)
next
  case (Suc n)
  have step: "fix_section new_ip section (Suc n) modified =
      (case fix_section new_ip section n modified of
         Inl e \<Rightarrow> Inl e
       | Inr st \<Rightarrow> fix_section_body new_ip n st)"
    by (simp add: fix_section_def for_each_append split: sum.splits)
  show ?case
  proof (cases "Suc n \<le> length section")
    case True
    then have n: "n < length section" by simp
    have eq: "(rewritten new_ip n section)[n := fix_rr new_ip (section ! n)] = rewritten new_ip n section"
      if "rrtype (section ! n) \<noteq> 1"
      using that n by (simp add: fix_rr_def list_update_same_conv rewritten_nth_next length_rewritten)
    show ?thesis
      using n True eq
      by (simp add: step Suc fix_section_body_def length_rewritten rewritten_nth_next
          rewritten_Suc has_A_take_Suc fix_rr_def Let_def)
  next
    case False
    then show ?thesis
      by (simp add: step Suc fix_section_body_def length_rewritten)
  qed
qed

lemma fix_sections_eq:
  "fix_sections new_ip d =
     (if counts_in_range d then Inr (rewrite_dns new_ip d, declared_A d) else Inl IndexError)"
  by (simp add: fix_sections_def fix_section_eq counts_in_range_def rewrite_dns_def
      declared_A_def)

lemma rewritten_no_A: "\<not> has_A (take count section) \<Longrightarrow> rewritten new_ip count section = section"
proof -
  assume "\<not> has_A (take count section)"
  then have "map (fix_rr new_ip) (take count section) = take count section"
    by (simp add: has_A_def list_ex_iff fix_rr_def map_idI)
  then show ?thesis by (simp add: rewritten_def)
qed

lemma rewrite_dns_no_A: "\<not> declared_A d \<Longrightarrow> rewrite_dns new_ip d = d"
  by (simp add: declared_A_def rewrite_dns_def rewritten_no_A)

lemma rewritten_nth:
  "i < length section \<Longrightarrow>
   rewritten new_ip count section ! i =
     (if i < count \<and> rrtype (section ! i) = 1 then (section ! i)\<lparr>rdata := new_ip\<rparr>
      else section ! i)"
  by (simp add: rewritten_def nth_append fix_rr_def)

lemma process_packet_eq:
  "process_packet new_ip p =
     (if \<not> is_dns_response p then Inr p
      else if \<not> packet_counts_in_range p then Inl IndexError
      else if packet_declared_A p then Inr (modified_packet new_ip p)
      else Inr p)"
proof (cases "dns p")
  case None
  then show ?thesis by (simp add: process_packet_def is_dns_response_def)
next
  case (Some d)
  have same: "p\<lparr>dns := Some d\<rparr> = p" using Some by simp
  have modi: "modified_packet new_ip p =
      p\<lparr>ip := map_option del_ip (ip p), udp := map_option del_udp (udp p),
        dns := Some (rewrite_dns new_ip d)\<rparr>"
    using Some by (simp add: modified_packet_def)
  show ?thesis
  proof (cases "qr d = 1")
    case False
    then show ?thesis using Some by (simp add: process_packet_def is_dns_response_def)
  next
    case True
    show ?thesis
      using Some True same
      by (cases "ip p"; cases "udp p")
        (simp_all add: process_packet_def is_dns_response_def fix_sections_eq
          packet_declared_A_def packet_counts_in_range_def rewrite_dns_no_A modi Let_def)
  qed
qed

lemma packet_modified_eq:
  "packet_modified new_ip p =
     (is_dns_response p \<and> packet_counts_in_range p \<and> packet_declared_A p)"
  by (cases "dns p")
    (auto simp: packet_modified_def is_dns_response_def fix_sections_eq packet_declared_A_def
      packet_counts_in_range_def)

text \<open>
  C8. \<open>fix_section\<close> visits the indices below the declared count, whatever the length
  of the parsed sequence. When no declared count exceeds the number of parsed records of
  its section, every index visited is below the length of its section and the three
  calls end without the out-of-range error: they return the layer with the records
  below the declared counts rewritten.
\<close>

theorem fix_sections_in_range:
  assumes "counts_in_range d"
  shows "list_all (\<lambda>i. i < length (an d)) [0..<ancount d]
       \<and> list_all (\<lambda>i. i < length (ns d)) [0..<nscount d]
       \<and> list_all (\<lambda>i. i < length (ar d)) [0..<arcount d]
       \<and> fix_section new_ip (an d) (ancount d) m \<noteq> Inl IndexError
       \<and> fix_section new_ip (ns d) (nscount d) m \<noteq> Inl IndexError
       \<and> fix_section new_ip (ar d) (arcount d) m \<noteq> Inl IndexError
       \<and> fix_sections new_ip d = Inr (rewrite_dns new_ip d, declared_A d)"
  using assms
  by (simp add: fix_sections_eq fix_section_eq counts_in_range_def list_all_iff)

theorem fix_sections_in_range_witness:
  "counts_in_range (response 1 [a_record ''93.184.216.34''] 1 [ns_record ''ns.example.com.''])
   \<and> fix_sections ''00.37.76.90''
        (response 1 [a_record ''93.184.216.34''] 1 [ns_record ''ns.example.com.''])
      = Inr (response 1 [a_record ''00.37.76.90''] 1 [ns_record ''ns.example.com.''], True)"
  using fix_sections_in_range
    [of "response 1 [a_record ''93.184.216.34''] 1 [ns_record ''ns.example.com.'']"
        "''00.37.76.90''" False]
  by (simp add: counts_in_range_def response_def rewrite_dns_def rewritten_def fix_rr_def
      declared_A_def has_A_def a_record_def ns_record_def)

subsection \<open>One packet\<close>

lemma has_A_take: "has_A (take n section) \<Longrightarrow> has_A section"
  by (auto simp: has_A_def list_ex_iff dest: in_set_takeD)

lemma declared_A_contains_A: "declared_A d \<Longrightarrow> contains_A d"
  by (auto simp: declared_A_def contains_A_def dest: has_A_take)

lemma packet_declared_A_contains_A: "packet_declared_A p \<Longrightarrow> packet_contains_A p"
  by (auto simp: packet_declared_A_def packet_contains_A_def
      split: option.splits dest: declared_A_contains_A)

lemma process_packet_dns:
  assumes "process_packet new_ip p = Inr p'" and "dns p = Some d" and "qr d = 1"
  shows "dns p' = Some (rewrite_dns new_ip d)"
proof (cases "packet_declared_A p")
  case True
  then show ?thesis
    using assms
    by (auto simp: process_packet_eq is_dns_response_def modified_packet_def split: if_splits)
next
  case False
  then have "rewrite_dns new_ip d = d"
    using assms(2) by (simp add: packet_declared_A_def rewrite_dns_no_A)
  then show ?thesis
    using assms False
    by (auto simp: process_packet_eq is_dns_response_def split: if_splits)
qed

lemma rewritten_all:
  "length section \<le> count \<Longrightarrow> rewritten new_ip count section = map (fix_rr new_ip) section"
  by (simp add: rewritten_def)

lemma declared_A_parsed: "parsed_within_counts d \<Longrightarrow> declared_A d = contains_A d"
  by (simp add: parsed_within_counts_def declared_A_def contains_A_def)

lemma packet_declared_A_parsed:
  "packet_parsed_within_counts p \<Longrightarrow> packet_declared_A p = packet_contains_A p"
  by (simp add: packet_parsed_within_counts_def packet_declared_A_def packet_contains_A_def
      declared_A_parsed split: option.splits)

lemma rewrite_dns_parsed:
  "parsed_within_counts d \<Longrightarrow>
   rewrite_dns new_ip d =
     d\<lparr>an := map (fix_rr new_ip) (an d), ns := map (fix_rr new_ip) (ns d),
       ar := map (fix_rr new_ip) (ar d)\<rparr>"
  by (simp add: parsed_within_counts_def rewrite_dns_def rewritten_all)

text \<open>
  C1, as amended. Take a DNS response as the reader delivers it. When no declared
  count exceeds the number of parsed records of its section, the rewriter returns a
  packet. In every packet it returns for the response, every A record of the answer,
  authority and additional sections has the target address as its \<open>rdata\<close>; the sections
  have their lengths, an A record is otherwise the record it was, and every record that
  is not of type A is the record it was.
\<close>

theorem process_packet_rewrites_A_records:
  assumes "dns p = Some d" and "qr d = 1" and "parsed_within_counts d"
  shows "(counts_in_range d \<longrightarrow> (\<exists>p'. process_packet new_ip p = Inr p'))
       \<and> (\<forall>p'. process_packet new_ip p = Inr p' \<longrightarrow>
            (\<exists>d'. dns p' = Some d'
               \<and> (\<forall>r \<in> set (an d' @ ns d' @ ar d'). rrtype r = 1 \<longrightarrow> rdata r = new_ip)
               \<and> length (an d') = length (an d)
               \<and> length (ns d') = length (ns d)
               \<and> length (ar d') = length (ar d)
               \<and> (\<forall>i < length (an d). an d' ! i =
                    (if rrtype (an d ! i) = 1 then (an d ! i)\<lparr>rdata := new_ip\<rparr>
                     else an d ! i))
               \<and> (\<forall>i < length (ns d). ns d' ! i =
                    (if rrtype (ns d ! i) = 1 then (ns d ! i)\<lparr>rdata := new_ip\<rparr>
                     else ns d ! i))
               \<and> (\<forall>i < length (ar d). ar d' ! i =
                    (if rrtype (ar d ! i) = 1 then (ar d ! i)\<lparr>rdata := new_ip\<rparr>
                     else ar d ! i))))"
proof (intro conjI allI impI)
  assume "counts_in_range d"
  then show "\<exists>p'. process_packet new_ip p = Inr p'"
    using assms(1,2) by (simp add: process_packet_eq packet_counts_in_range_def)
next
  fix p' assume run: "process_packet new_ip p = Inr p'"
  define d' where "d' = rewrite_dns new_ip d"
  have dns: "dns p' = Some d'"
    unfolding d'_def using run assms(1,2) by (rule process_packet_dns)
  have an: "an d' = map (fix_rr new_ip) (an d)"
    and ns: "ns d' = map (fix_rr new_ip) (ns d)"
    and ar: "ar d' = map (fix_rr new_ip) (ar d)"
    using assms(3) by (simp_all add: d'_def rewrite_dns_parsed)
  have fixed: "\<forall>r \<in> set (an d' @ ns d' @ ar d'). rrtype r = 1 \<longrightarrow> rdata r = new_ip"
    by (auto simp: an ns ar fix_rr_def)
  have lengths: "length (an d') = length (an d) \<and> length (ns d') = length (ns d)
      \<and> length (ar d') = length (ar d)"
    by (simp add: an ns ar)
  have nth_an: "\<forall>i < length (an d). an d' ! i =
      (if rrtype (an d ! i) = 1 then (an d ! i)\<lparr>rdata := new_ip\<rparr> else an d ! i)"
    by (simp add: an fix_rr_def)
  have nth_ns: "\<forall>i < length (ns d). ns d' ! i =
      (if rrtype (ns d ! i) = 1 then (ns d ! i)\<lparr>rdata := new_ip\<rparr> else ns d ! i)"
    by (simp add: ns fix_rr_def)
  have nth_ar: "\<forall>i < length (ar d). ar d' ! i =
      (if rrtype (ar d ! i) = 1 then (ar d ! i)\<lparr>rdata := new_ip\<rparr> else ar d ! i)"
    by (simp add: ar fix_rr_def)
  show "\<exists>d'. dns p' = Some d'
      \<and> (\<forall>r \<in> set (an d' @ ns d' @ ar d'). rrtype r = 1 \<longrightarrow> rdata r = new_ip)
      \<and> length (an d') = length (an d)
      \<and> length (ns d') = length (ns d)
      \<and> length (ar d') = length (ar d)
      \<and> (\<forall>i < length (an d). an d' ! i =
           (if rrtype (an d ! i) = 1 then (an d ! i)\<lparr>rdata := new_ip\<rparr> else an d ! i))
      \<and> (\<forall>i < length (ns d). ns d' ! i =
           (if rrtype (ns d ! i) = 1 then (ns d ! i)\<lparr>rdata := new_ip\<rparr> else ns d ! i))
      \<and> (\<forall>i < length (ar d). ar d' ! i =
           (if rrtype (ar d ! i) = 1 then (ar d ! i)\<lparr>rdata := new_ip\<rparr> else ar d ! i))"
    using dns fixed lengths nth_an nth_ns nth_ar by blast
qed

theorem process_packet_rewrites_A_records_witness:
  "dns example_response =
     Some (response 1 [a_record ''93.184.216.34''] 1 [ns_record ''ns.example.com.''])
   \<and> parsed_within_counts
       (response 1 [a_record ''93.184.216.34''] 1 [ns_record ''ns.example.com.''])
   \<and> counts_in_range
       (response 1 [a_record ''93.184.216.34''] 1 [ns_record ''ns.example.com.''])
   \<and> process_packet ''00.37.76.90'' example_response =
       Inr (invalidated
         (Some (response 1 [a_record ''00.37.76.90''] 1 [ns_record ''ns.example.com.''])))"
  using process_packet_rewrites_A_records
    [of example_response
        "response 1 [a_record ''93.184.216.34''] 1 [ns_record ''ns.example.com.'']"
        "''00.37.76.90''"]
  by (simp add: example_response_def udp_packet_def response_def counts_in_range_def
      parsed_within_counts_def
      process_packet_eq is_dns_response_def packet_counts_in_range_def packet_declared_A_def
      declared_A_def has_A_def a_record_def ns_record_def modified_packet_def invalidated_def
      rewrite_dns_def rewritten_def fix_rr_def)

text \<open>
  The claim C1 as it is written fails: a response that declares two answers and carries
  one, as the reader delivers a response cut after its first answer, is a DNS response
  with an A record, and the rewriter ends with the out-of-range error for it; the run
  writes no packet.
\<close>

theorem truncated_response_aborts:
  "packet_parsed_within_counts truncated_response
   \<and> is_dns_response truncated_response
   \<and> packet_contains_A truncated_response
   \<and> process_packet (convert_sciper_to_ip SCIPER) truncated_response = Inl IndexError
   \<and> packet_loop (convert_sciper_to_ip SCIPER) [example_query, truncated_response] [] =
       Inl IndexError"
  by (simp add: truncated_response_def example_query_def udp_packet_def response_def
      process_packet_eq is_dns_response_def packet_counts_in_range_def counts_in_range_def
      packet_parsed_within_counts_def parsed_within_counts_def
      packet_contains_A_def contains_A_def has_A_def a_record_def)

text \<open>
  C3, as amended. Take a packet as the reader delivers it. When no declared count
  exceeds the number of parsed records, the rewriter returns a packet. For every packet
  it returns, the run reaches the modification (line 42) if and only if the input is a
  DNS response with at least one A record in any of its three sections. A packet for
  which it does not is returned as it was, and one for which it does is returned with
  its A records rewritten and the lengths and checksums removed.
\<close>

theorem packet_modified_iff_contains_A:
  assumes "packet_parsed_within_counts p"
  shows "(packet_counts_in_range p \<longrightarrow> (\<exists>p'. process_packet new_ip p = Inr p'))
       \<and> (\<forall>p'. process_packet new_ip p = Inr p' \<longrightarrow>
            (packet_modified new_ip p \<longleftrightarrow> is_dns_response p \<and> packet_contains_A p)
          \<and> (\<not> packet_modified new_ip p \<longrightarrow> p' = p)
          \<and> (packet_modified new_ip p \<longrightarrow> p' = modified_packet new_ip p))"
  using packet_declared_A_parsed [OF assms]
  by (auto simp: packet_modified_eq process_packet_eq split: if_splits)

theorem packet_modified_iff_contains_A_witness:
  "packet_parsed_within_counts example_response
   \<and> process_packet ''00.37.76.90'' example_response =
     Inr (invalidated
       (Some (response 1 [a_record ''00.37.76.90''] 1 [ns_record ''ns.example.com.''])))
   \<and> packet_modified ''00.37.76.90'' example_response
   \<and> is_dns_response example_response \<and> packet_contains_A example_response"
proof -
  have parsed: "packet_parsed_within_counts example_response"
    by (simp add: example_response_def udp_packet_def response_def
        packet_parsed_within_counts_def parsed_within_counts_def)
  have run: "process_packet ''00.37.76.90'' example_response =
     Inr (invalidated
       (Some (response 1 [a_record ''00.37.76.90''] 1 [ns_record ''ns.example.com.''])))"
    by (simp add: example_response_def udp_packet_def response_def counts_in_range_def
      process_packet_eq is_dns_response_def packet_counts_in_range_def packet_declared_A_def
      declared_A_def has_A_def a_record_def ns_record_def modified_packet_def invalidated_def
      rewrite_dns_def rewritten_def fix_rr_def)
  have "is_dns_response example_response \<and> packet_contains_A example_response"
    by (simp add: example_response_def udp_packet_def response_def is_dns_response_def
        packet_contains_A_def contains_A_def has_A_def a_record_def)
  then show ?thesis
    using parsed run packet_modified_iff_contains_A [OF parsed, of "''00.37.76.90''"]
    by simp
qed

text \<open>
  The claim C3 as it is written fails: a response cut after its answer, which declares
  one authority record and carries none, is a DNS response with an A record in its
  answer section; the rewriter ends with the out-of-range error for it, so the packet is
  neither modified nor passed through.
\<close>

theorem truncated_authority_not_modified:
  "packet_parsed_within_counts truncated_authority
   \<and> is_dns_response truncated_authority
   \<and> packet_contains_A truncated_authority
   \<and> \<not> packet_modified (convert_sciper_to_ip SCIPER) truncated_authority
   \<and> process_packet (convert_sciper_to_ip SCIPER) truncated_authority = Inl IndexError"
  by (simp add: truncated_authority_def udp_packet_def response_def
      process_packet_eq packet_modified_eq is_dns_response_def packet_counts_in_range_def
      counts_in_range_def packet_parsed_within_counts_def parsed_within_counts_def
      packet_contains_A_def contains_A_def has_A_def a_record_def)

text \<open>
  C4. A packet that is not a DNS response, or a DNS response with no A record in any of
  its three sections, is appended to the output as it is, timestamp included. The
  rewriter returns it whenever the packet is not a response and whenever no declared
  count exceeds the number of parsed records, and whatever it returns is the packet.
\<close>

theorem pass_through_unchanged:
  assumes "\<not> is_dns_response p \<or> \<not> packet_contains_A p"
  shows "(\<not> is_dns_response p \<longrightarrow> process_packet new_ip p = Inr p)
       \<and> (packet_counts_in_range p \<longrightarrow> process_packet new_ip p = Inr p)
       \<and> (\<forall>p'. process_packet new_ip p = Inr p' \<longrightarrow> p' = p \<and> time p' = time p)"
  using assms packet_declared_A_contains_A [of p]
  by (auto simp: process_packet_eq split: if_splits)

theorem pass_through_unchanged_witness:
  "\<not> is_dns_response example_query
   \<and> process_packet ''00.37.76.90'' example_query = Inr example_query"
  using pass_through_unchanged [of example_query "''00.37.76.90''"]
  by (simp add: example_query_def udp_packet_def response_def is_dns_response_def)

text \<open>
  C5. For every packet that is modified, the rewriter returns a packet whose capture
  timestamp is the timestamp of the input packet, while the lengths and checksums of
  the IP and UDP headers present are removed.
\<close>

theorem modified_packet_keeps_time:
  assumes "packet_modified new_ip p"
  shows "\<exists>p'. process_packet new_ip p = Inr p' \<and> time p' = time p
       \<and> map_option ip_len (ip p') = map_option (\<lambda>h. None) (ip p)
       \<and> map_option ip_chksum (ip p') = map_option (\<lambda>h. None) (ip p)
       \<and> map_option udp_len (udp p') = map_option (\<lambda>u. None) (udp p)
       \<and> map_option udp_chksum (udp p') = map_option (\<lambda>u. None) (udp p)"
  using assms
  by (cases "ip p"; cases "udp p")
    (simp_all add: packet_modified_eq process_packet_eq modified_packet_def del_ip_def
      del_udp_def)

theorem modified_packet_keeps_time_witness:
  "packet_modified ''00.37.76.90'' example_response
   \<and> (\<exists>p'. process_packet ''00.37.76.90'' example_response = Inr p'
        \<and> time p' = 1700000000000000)"
proof -
  have m: "packet_modified ''00.37.76.90'' example_response"
    by (simp add: packet_modified_eq example_response_def udp_packet_def response_def
        is_dns_response_def packet_counts_in_range_def counts_in_range_def
        packet_declared_A_def declared_A_def has_A_def a_record_def)
  have "time example_response = 1700000000000000"
    by (simp add: example_response_def udp_packet_def)
  then show ?thesis
    using m modified_packet_keeps_time [OF m] by auto
qed

text \<open>
  C10. A packet that is modified is returned with the \<open>rdata\<close> of the A records below the
  declared counts of its three sections replaced and with the lengths and checksums of
  the IP and UDP headers present removed, and with nothing else changed: the timestamp,
  the link-layer addresses, the IP addresses and TTL, the UDP ports, the DNS
  identifier, flags and counts, the lengths of the sections, and every record that is
  not of type A or is not below the declared count are as they were; a rewritten record
  keeps its name, type, class and TTL.
\<close>

theorem modified_packet_frame:
  assumes "packet_modified new_ip p"
  shows "\<exists>p'. process_packet new_ip p = Inr p'
       \<and> p' = p\<lparr>ip := map_option (\<lambda>h. h\<lparr>ip_len := None, ip_chksum := None\<rparr>) (ip p),
                udp := map_option (\<lambda>u. u\<lparr>udp_len := None, udp_chksum := None\<rparr>) (udp p),
                dns := map_option
                  (\<lambda>d. d\<lparr>an := rewritten new_ip (ancount d) (an d),
                          ns := rewritten new_ip (nscount d) (ns d),
                          ar := rewritten new_ip (arcount d) (ar d)\<rparr>) (dns p)\<rparr>
       \<and> time p' = time p \<and> eth_src p' = eth_src p \<and> eth_dst p' = eth_dst p
       \<and> map_option ip_src (ip p') = map_option ip_src (ip p)
       \<and> map_option ip_dst (ip p') = map_option ip_dst (ip p)
       \<and> map_option ip_ttl (ip p') = map_option ip_ttl (ip p)
       \<and> map_option sport (udp p') = map_option sport (udp p)
       \<and> map_option dport (udp p') = map_option dport (udp p)
       \<and> map_option dns_id (dns p') = map_option dns_id (dns p)
       \<and> map_option qr (dns p') = map_option qr (dns p)
       \<and> map_option rcode (dns p') = map_option rcode (dns p)
       \<and> map_option ancount (dns p') = map_option ancount (dns p)
       \<and> map_option nscount (dns p') = map_option nscount (dns p)
       \<and> map_option arcount (dns p') = map_option arcount (dns p)"
proof -
  have run: "process_packet new_ip p = Inr (modified_packet new_ip p)"
    using assms by (simp add: packet_modified_eq process_packet_eq)
  have eq: "modified_packet new_ip p =
      p\<lparr>ip := map_option (\<lambda>h. h\<lparr>ip_len := None, ip_chksum := None\<rparr>) (ip p),
        udp := map_option (\<lambda>u. u\<lparr>udp_len := None, udp_chksum := None\<rparr>) (udp p),
        dns := map_option
          (\<lambda>d. d\<lparr>an := rewritten new_ip (ancount d) (an d),
                  ns := rewritten new_ip (nscount d) (ns d),
                  ar := rewritten new_ip (arcount d) (ar d)\<rparr>) (dns p)\<rparr>"
    by (cases "ip p"; cases "udp p"; cases "dns p")
      (simp_all add: modified_packet_def del_ip_def del_udp_def rewrite_dns_def)
  show ?thesis
    unfolding run eq
    by (cases "ip p"; cases "udp p"; cases "dns p") simp_all
qed

text \<open>
  What \<open>rewritten\<close> changes: it keeps the length of the section; at an index below the
  count an A record gets the target address and keeps its other fields; every other
  record is kept.
\<close>

lemma rewritten_frame:
  "length (rewritten new_ip count section) = length section
   \<and> (\<forall>i < length section.
        rrname (rewritten new_ip count section ! i) = rrname (section ! i)
      \<and> rrtype (rewritten new_ip count section ! i) = rrtype (section ! i)
      \<and> rclass (rewritten new_ip count section ! i) = rclass (section ! i)
      \<and> ttl (rewritten new_ip count section ! i) = ttl (section ! i)
      \<and> (\<not> (i < count \<and> rrtype (section ! i) = 1) \<longrightarrow>
           rewritten new_ip count section ! i = section ! i))"
  by (simp add: length_rewritten rewritten_nth)

theorem modified_packet_frame_witness:
  "packet_modified ''00.37.76.90'' example_response
   \<and> process_packet ''00.37.76.90'' example_response =
       Inr (invalidated
         (Some (response 1 [a_record ''00.37.76.90''] 1 [ns_record ''ns.example.com.''])))"
proof -
  have m: "packet_modified ''00.37.76.90'' example_response"
    by (simp add: packet_modified_eq example_response_def udp_packet_def response_def
        is_dns_response_def packet_counts_in_range_def counts_in_range_def
        packet_declared_A_def declared_A_def has_A_def a_record_def)
  show ?thesis
    using m modified_packet_frame [OF m]
    by (auto simp: example_response_def udp_packet_def response_def invalidated_def
        rewritten_def fix_rr_def a_record_def ns_record_def del_ip_def del_udp_def)
qed

subsection \<open>The sequence of packets\<close>

lemma packet_loop_map:
  "packet_loop new_ip pkts acc = Inr out \<longleftrightarrow>
     (\<exists>res. out = acc @ res \<and> map (process_packet new_ip) pkts = map Inr res)"
proof (induction pkts arbitrary: acc)
  case Nil
  show ?case by auto
next
  case (Cons p pkts)
  show ?case
  proof (cases "process_packet new_ip p")
    case (Inl e)
    then show ?thesis by auto
  next
    case (Inr p')
    have "(\<exists>res. out = (acc @ [p']) @ res \<and> map (process_packet new_ip) pkts = map Inr res)
      \<longleftrightarrow> (\<exists>res. out = acc @ res \<and> Inr p' # map (process_packet new_ip) pkts = map Inr res)"
      (is "?L \<longleftrightarrow> ?R")
    proof
      assume ?L
      then obtain res where "out = acc @ (p' # res)"
        and "map (process_packet new_ip) pkts = map Inr res" by auto
      then show ?R by (intro exI [of _ "p' # res"]) simp
    next
      assume ?R
      then obtain res where res: "out = acc @ res"
        "Inr p' # map (process_packet new_ip) pkts = map Inr res" by auto
      then obtain r rs where "res = r # rs" by (cases res) auto
      with res show ?L by auto
    qed
    then show ?thesis using Inr Cons.IH [of "acc @ [p']"] by simp
  qed
qed

lemma packet_loop_error:
  "packet_loop new_ip pkts acc = Inl e \<Longrightarrow> \<exists>p \<in> set pkts. process_packet new_ip p = Inl e"
  by (induction pkts arbitrary: acc) (auto split: sum.splits)

lemma packet_loop_nth:
  "packet_loop new_ip pkts [] = Inr out \<longleftrightarrow>
     length out = length pkts
     \<and> (\<forall>i < length pkts. process_packet new_ip (pkts ! i) = Inr (out ! i))"
  by (auto simp: packet_loop_map list_eq_iff_nth_eq)

text \<open>
  C6. The loop returns an output sequence exactly when every packet is processed
  without error, and then the output has one packet for each input packet, in the order
  of the input: the packet at index \<open>N\<close> of the output is what the rewriter returns for
  the packet at index \<open>N\<close> of the input.
\<close>

theorem packet_loop_order:
  "packet_loop new_ip pkts [] = Inr out \<longleftrightarrow>
     length out = length pkts
     \<and> (\<forall>N < length pkts. process_packet new_ip (pkts ! N) = Inr (out ! N))"
  by (rule packet_loop_nth)

lemma example_loop:
  "packet_loop ''00.37.76.90'' example_capture [] =
     Inr [example_query,
          invalidated
            (Some (response 1 [a_record ''00.37.76.90''] 1 [ns_record ''ns.example.com.'']))]"
  by (simp add: example_capture_def example_response_def example_query_def udp_packet_def
      response_def counts_in_range_def
      process_packet_eq is_dns_response_def packet_counts_in_range_def packet_declared_A_def
      declared_A_def has_A_def a_record_def ns_record_def modified_packet_def invalidated_def
      rewrite_dns_def rewritten_def fix_rr_def)

theorem packet_loop_order_witness:
  "packet_loop ''00.37.76.90'' example_capture [] =
     Inr [example_query,
          invalidated
            (Some (response 1 [a_record ''00.37.76.90''] 1 [ns_record ''ns.example.com.'']))]
   \<and> process_packet ''00.37.76.90'' (example_capture ! 0) = Inr example_query
   \<and> process_packet ''00.37.76.90'' (example_capture ! 1) =
       Inr (invalidated
         (Some (response 1 [a_record ''00.37.76.90''] 1 [ns_record ''ns.example.com.''])))"
proof -
  let ?out = "[example_query,
          invalidated
            (Some (response 1 [a_record ''00.37.76.90''] 1 [ns_record ''ns.example.com.'']))]"
  have "length ?out = length example_capture
     \<and> (\<forall>N < length example_capture.
          process_packet ''00.37.76.90'' (example_capture ! N) = Inr (?out ! N))"
    using packet_loop_order [of "''00.37.76.90''" example_capture ?out] example_loop
    by simp
  then have "\<forall>N < 2. process_packet ''00.37.76.90'' (example_capture ! N) = Inr (?out ! N)"
    by (simp add: example_capture_def)
  then have "process_packet ''00.37.76.90'' (example_capture ! 0) = Inr (?out ! 0)"
    and "process_packet ''00.37.76.90'' (example_capture ! 1) = Inr (?out ! 1)"
    by simp_all
  then show ?thesis using example_loop by simp
qed

subsection \<open>The whole run\<close>

lemma modify_pcap_cases:
  "modify_pcap c w inp outp =
     (case files w inp of
        None \<Rightarrow> (w, Some FileAccessError)
      | Some NotACapture \<Rightarrow> (w, Some ParseError)
      | Some (Capture pkts) \<Rightarrow>
          (case packet_loop (convert_sciper_to_ip SCIPER) pkts [] of
             Inl e \<Rightarrow> (w, Some e)
           | Inr new_pkts \<Rightarrow>
               if writable w outp
               then (w\<lparr>files := (files w)(outp \<mapsto> Capture (map (build c) new_pkts))\<rparr>, None)
               else (w, Some FileAccessError)))"
  by (simp add: modify_pcap_def rdpcap_def wrpcap_def
      split: option.splits file_content.splits sum.splits)

text \<open>
  C9. Loading fails with a file-access error when the input path cannot be read and
  with a parse error when the file is not a capture; an error of loading, of the
  rewriter or of saving ends the run with that error and leaves every file as it was.
  A run ends in one of two ways: with an error and the files as they were, or without
  error and with the output file holding one packet for each input packet, in order,
  each the rewriter's result for the input packet at its index, as serialised.
\<close>

theorem modify_pcap_all_or_nothing:
  "(files w inp = None \<longrightarrow> modify_pcap c w inp outp = (w, Some FileAccessError))
   \<and> (files w inp = Some NotACapture \<longrightarrow> modify_pcap c w inp outp = (w, Some ParseError))
   \<and> (\<forall>pkts e. files w inp = Some (Capture pkts)
         \<and> packet_loop (convert_sciper_to_ip SCIPER) pkts [] = Inl e
         \<longrightarrow> modify_pcap c w inp outp = (w, Some e))
   \<and> (\<not> writable w outp \<longrightarrow> (\<exists>e. modify_pcap c w inp outp = (w, Some e)))
   \<and> ((\<exists>e. modify_pcap c w inp outp = (w, Some e))
       \<or> (\<exists>pkts new_pkts. files w inp = Some (Capture pkts)
            \<and> length new_pkts = length pkts
            \<and> (\<forall>N < length pkts.
                  process_packet (convert_sciper_to_ip SCIPER) (pkts ! N) = Inr (new_pkts ! N))
            \<and> modify_pcap c w inp outp =
                (w\<lparr>files := (files w)(outp \<mapsto> Capture (map (build c) new_pkts))\<rparr>, None)))"
proof -
  have last: "(\<exists>e. modify_pcap c w inp outp = (w, Some e))
       \<or> (\<exists>pkts new_pkts. files w inp = Some (Capture pkts)
            \<and> length new_pkts = length pkts
            \<and> (\<forall>N < length pkts.
                  process_packet (convert_sciper_to_ip SCIPER) (pkts ! N) = Inr (new_pkts ! N))
            \<and> modify_pcap c w inp outp =
                (w\<lparr>files := (files w)(outp \<mapsto> Capture (map (build c) new_pkts))\<rparr>, None))"
  proof (cases "files w inp")
    case None
    then show ?thesis by (simp add: modify_pcap_cases)
  next
    case (Some f)
    show ?thesis
    proof (cases f)
      case NotACapture
      with Some show ?thesis by (simp add: modify_pcap_cases)
    next
      case (Capture pkts)
      show ?thesis
      proof (cases "packet_loop (convert_sciper_to_ip SCIPER) pkts []")
        case (Inl e)
        with Some Capture show ?thesis by (simp add: modify_pcap_cases)
      next
        case (Inr new_pkts)
        then have "length new_pkts = length pkts
          \<and> (\<forall>N < length pkts.
                process_packet (convert_sciper_to_ip SCIPER) (pkts ! N) = Inr (new_pkts ! N))"
          by (simp add: packet_loop_nth)
        then have order: "files w inp = Some (Capture pkts) \<and> length new_pkts = length pkts
          \<and> (\<forall>N < length pkts.
                process_packet (convert_sciper_to_ip SCIPER) (pkts ! N) = Inr (new_pkts ! N))"
          using Some Capture by simp
        show ?thesis
        proof (cases "writable w outp")
          case True
          then have "modify_pcap c w inp outp =
              (w\<lparr>files := (files w)(outp \<mapsto> Capture (map (build c) new_pkts))\<rparr>, None)"
            using Some Capture Inr by (simp add: modify_pcap_cases)
          with order show ?thesis by blast
        next
          case False
          then show ?thesis
            using Some Capture Inr by (simp add: modify_pcap_cases)
        qed
      qed
    qed
  qed
  have unwritable: "\<not> writable w outp \<longrightarrow> (\<exists>e. modify_pcap c w inp outp = (w, Some e))"
    by (simp add: modify_pcap_cases split: option.splits file_content.splits sum.splits)
  show ?thesis
    using last unwritable by (simp add: modify_pcap_cases)
qed

lemma build_example_output:
  "map (build example_codec)
     [example_query,
      invalidated
        (Some (response 1 [a_record ''00.37.76.90''] 1 [ns_record ''ns.example.com.'']))]
   = example_output"
  by (simp add: example_output_def example_query_def invalidated_def udp_packet_def
      build_def field_or_def example_codec_def del_ip_def del_udp_def)

lemma example_run:
  "modify_pcap example_codec example_world ''in.pcap'' ''out.pcap'' =
     (example_world\<lparr>files := (files example_world)(''out.pcap'' \<mapsto> Capture example_output)\<rparr>,
      None)"
proof -
  have "files example_world ''in.pcap'' = Some (Capture example_capture)"
    and "writable example_world ''out.pcap''"
    by (simp_all add: example_world_def)
  then show ?thesis
    using build_example_output
    by (simp add: modify_pcap_cases new_ip_value example_loop)
qed

theorem modify_pcap_all_or_nothing_witness:
  "files example_world ''missing.pcap'' = None
   \<and> modify_pcap example_codec example_world ''missing.pcap'' ''out.pcap'' =
       (example_world, Some FileAccessError)
   \<and> files example_world ''notes.txt'' = Some NotACapture
   \<and> modify_pcap example_codec example_world ''notes.txt'' ''out.pcap'' =
       (example_world, Some ParseError)
   \<and> modify_pcap example_codec example_world ''in.pcap'' ''out.pcap'' =
       (example_world\<lparr>files := (files example_world)(''out.pcap'' \<mapsto> Capture example_output)\<rparr>,
        None)"
  using modify_pcap_all_or_nothing [of example_world "''missing.pcap''" example_codec "''out.pcap''"]
    modify_pcap_all_or_nothing [of example_world "''notes.txt''" example_codec "''out.pcap''"]
    example_run
  by (simp add: example_world_def)

subsection \<open>Running the rewriter on its own output\<close>

lemma build_dns: "dns (build c p) = dns p"
  by (simp add: build_def)

lemma build_build: "build c (build c p) = build c p"
  by (cases "ip p"; cases "udp p") (simp_all add: build_def field_or_def split: option.splits)

lemma fix_rr_fix_rr: "fix_rr new_ip (fix_rr new_ip r) = fix_rr new_ip r"
  by (simp add: fix_rr_def)

lemma rrtype_fix_rr: "rrtype (fix_rr new_ip r) = rrtype r"
  by (simp add: fix_rr_def)

lemma take_rewritten:
  "take count (rewritten new_ip count section) = map (fix_rr new_ip) (take count section)"
  by (cases "count \<le> length section") (simp_all add: rewritten_def)

lemma drop_rewritten:
  "drop count (rewritten new_ip count section) = drop count section"
  by (cases "count \<le> length section") (simp_all add: rewritten_def min_def)

lemma rewritten_rewritten:
  "rewritten new_ip count (rewritten new_ip count section) = rewritten new_ip count section"
proof -
  have "rewritten new_ip count (rewritten new_ip count section) =
      map (fix_rr new_ip) (take count (rewritten new_ip count section))
      @ drop count (rewritten new_ip count section)"
    by (simp only: rewritten_def [of new_ip count "rewritten new_ip count section"])
  also have "\<dots> = map (fix_rr new_ip) (take count section) @ drop count section"
    by (simp add: take_rewritten drop_rewritten fix_rr_fix_rr)
  finally show ?thesis by (simp add: rewritten_def)
qed

lemma has_A_take_rewritten:
  "has_A (take count (rewritten new_ip count section)) = has_A (take count section)"
  by (simp add: take_rewritten has_A_def list_ex_iff rrtype_fix_rr)

lemma rewrite_dns_rewrite_dns: "rewrite_dns new_ip (rewrite_dns new_ip d) = rewrite_dns new_ip d"
  by (simp add: rewrite_dns_def rewritten_rewritten)

lemma declared_A_rewrite_dns: "declared_A (rewrite_dns new_ip d) = declared_A d"
  by (simp add: declared_A_def rewrite_dns_def has_A_take_rewritten)

lemma counts_in_range_rewrite_dns: "counts_in_range (rewrite_dns new_ip d) = counts_in_range d"
  by (simp add: counts_in_range_def rewrite_dns_def length_rewritten)

lemma qr_rewrite_dns: "qr (rewrite_dns new_ip d) = qr d"
  by (simp add: rewrite_dns_def)

lemma modified_packet_build_modified_packet:
  "modified_packet new_ip (build c (modified_packet new_ip p)) = modified_packet new_ip p"
  by (cases "ip p"; cases "udp p"; cases "dns p")
    (simp_all add: modified_packet_def build_def del_ip_def del_udp_def rewrite_dns_rewrite_dns)

text \<open>
  A packet that the rewriter returned, written and read again, is returned by the
  rewriter as a packet that is written as the same frame.
\<close>

lemma process_packet_again:
  assumes "process_packet new_ip p = Inr p'"
  shows "\<exists>q. process_packet new_ip (build c p') = Inr q \<and> build c q = build c p'"
proof (cases "is_dns_response p \<and> packet_declared_A p")
  case False
  then have same: "p' = p"
    using assms by (auto simp: process_packet_eq split: if_splits)
  have range: "is_dns_response p \<longrightarrow> packet_counts_in_range p"
    using assms by (auto simp: process_packet_eq split: if_splits)
  have "process_packet new_ip (build c p) = Inr (build c p)"
    using False range
    by (auto simp: process_packet_eq is_dns_response_def packet_counts_in_range_def
        packet_declared_A_def build_dns)
  then show ?thesis by (simp add: same build_build)
next
  case True
  then obtain d where d: "dns p = Some d" "qr d = 1" "declared_A d"
    by (auto simp: is_dns_response_def packet_declared_A_def split: option.splits)
  have range: "counts_in_range d" and p': "p' = modified_packet new_ip p"
    using assms True d
    by (auto simp: process_packet_eq packet_counts_in_range_def split: if_splits)
  have "dns (build c p') = Some (rewrite_dns new_ip d)"
    using d by (simp add: p' build_dns modified_packet_def)
  then have "process_packet new_ip (build c p') = Inr (modified_packet new_ip (build c p'))"
    using d range
    by (simp add: process_packet_eq is_dns_response_def packet_counts_in_range_def
        packet_declared_A_def qr_rewrite_dns counts_in_range_rewrite_dns declared_A_rewrite_dns)
  moreover have "modified_packet new_ip (build c p') = p'"
    by (simp add: p' modified_packet_build_modified_packet)
  ultimately show ?thesis by simp
qed

lemma packet_loop_again:
  assumes "packet_loop new_ip pkts [] = Inr new_pkts"
  shows "\<exists>again. packet_loop new_ip (map (build c) new_pkts) [] = Inr again
           \<and> map (build c) again = map (build c) new_pkts"
proof -
  have each: "\<forall>p' \<in> set new_pkts. \<exists>q. process_packet new_ip (build c p') = Inr q
      \<and> build c q = build c p'"
  proof
    fix p' assume "p' \<in> set new_pkts"
    then obtain N where N: "N < length new_pkts" "new_pkts ! N = p'"
      by (auto simp: in_set_conv_nth)
    then have "process_packet new_ip (pkts ! N) = Inr p'"
      using assms by (simp add: packet_loop_nth)
    then show "\<exists>q. process_packet new_ip (build c p') = Inr q \<and> build c q = build c p'"
      by (rule process_packet_again)
  qed
  define again where
    "again = map (\<lambda>p'. projr (process_packet new_ip (build c p'))) new_pkts"
  have "map (process_packet new_ip) (map (build c) new_pkts) = map Inr again"
    using each by (auto simp: again_def)
  then have "packet_loop new_ip (map (build c) new_pkts) [] = Inr again"
    by (simp add: packet_loop_map)
  moreover have "map (build c) again = map (build c) new_pkts"
    using each by (auto simp: again_def)
  ultimately show ?thesis by blast
qed

text \<open>
  C7. When a run of the rewriter has written its output, a second run that reads this
  output succeeds and writes the same file: written over the first output it leaves
  every file as it is, and written to another writable path it writes there the
  content of the first output.
\<close>

theorem modify_pcap_idempotent:
  assumes "modify_pcap c w inp outp = (w1, None)"
  shows "modify_pcap c w1 outp outp = (w1, None)
       \<and> (writable w outp2 \<longrightarrow>
            (\<exists>w2. modify_pcap c w1 outp outp2 = (w2, None)
               \<and> files w2 outp2 = files w1 outp \<and> files w2 outp = files w1 outp))"
proof -
  obtain pkts new_pkts where first:
      "files w inp = Some (Capture pkts)"
      "packet_loop (convert_sciper_to_ip SCIPER) pkts [] = Inr new_pkts"
      "writable w outp"
      "w1 = w\<lparr>files := (files w)(outp \<mapsto> Capture (map (build c) new_pkts))\<rparr>"
    using assms
    by (auto simp: modify_pcap_cases
        split: option.splits file_content.splits sum.splits if_splits)
  obtain again where again:
      "packet_loop (convert_sciper_to_ip SCIPER) (map (build c) new_pkts) [] = Inr again"
      "map (build c) again = map (build c) new_pkts"
    using packet_loop_again [OF first(2)] by blast
  have read: "files w1 outp = Some (Capture (map (build c) new_pkts))"
    and wr: "writable w1 = writable w"
    by (simp_all add: first(4))
  have same: "modify_pcap c w1 outp outp = (w1, None)"
    using first(3) by (simp add: modify_pcap_cases read wr again) (simp add: first(4))
  have other: "\<exists>w2. modify_pcap c w1 outp outp2 = (w2, None)
               \<and> files w2 outp2 = files w1 outp \<and> files w2 outp = files w1 outp"
    if "writable w outp2"
    using that by (simp add: modify_pcap_cases read wr again)
  show ?thesis using same other by simp
qed

theorem modify_pcap_idempotent_witness:
  "modify_pcap example_codec example_world ''in.pcap'' ''out.pcap'' =
     (example_world\<lparr>files := (files example_world)(''out.pcap'' \<mapsto> Capture example_output)\<rparr>,
      None)
   \<and> modify_pcap example_codec
       (example_world\<lparr>files := (files example_world)(''out.pcap'' \<mapsto> Capture example_output)\<rparr>)
       ''out.pcap'' ''out.pcap'' =
     (example_world\<lparr>files := (files example_world)(''out.pcap'' \<mapsto> Capture example_output)\<rparr>,
      None)"
  using example_run modify_pcap_idempotent [OF example_run, of "''out.pcap''"]
  by simp

end
